theory Spec2Isabelle
  imports Main
begin

section \<open>Python values\<close>

text \<open>
  A Python \<open>str\<close> is a sequence of Unicode code points; it is modelled as the list of
  their numbers.  \<open>lit\<close> turns an ASCII literal of the source into such a list.
\<close>

type_synonym pystr = "nat list"

definition lit :: "string \<Rightarrow> pystr" where
  "lit s = map of_char s"

text \<open>
  The values that \<open>json.dumps\<close> accepts and \<open>json.loads\<close> returns.  A \<open>dict\<close> keeps its
  insertion order, so it is an association list; its keys are strings.  Floating-point
  arithmetic is not modelled: a float is carried as the text of its literal, which is
  ASCII.  An \<open>int\<close> is unbounded; the interpreter's limit on the number of digits that
  it converts between \<open>int\<close> and \<open>str\<close> is not modelled.
\<close>

datatype json =
    JNull
  | JBool bool
  | JInt int
  | JFloat string
  | JStr pystr
  | JArr "json list"
  | JObj "(pystr \<times> json) list"

section \<open>\<open>json.dumps(obj, indent=2)\<close>\<close>

text \<open>\<open>'{0:04x}'.format(n)\<close> for \<open>n < 0x10000\<close>: four lower-case hexadecimal digits.\<close>

definition hex_digit :: "nat \<Rightarrow> nat" where
  "hex_digit d = (if d < 10 then 0x30 + d else 0x57 + d)"

definition hex4 :: "nat \<Rightarrow> pystr" where
  "hex4 n = [hex_digit (n div 4096 mod 16), hex_digit (n div 256 mod 16),
             hex_digit (n div 16 mod 16), hex_digit (n mod 16)]"

text \<open>
  \<open>encode_basestring_ascii\<close> (\<open>ensure_ascii=True\<close> is the default): every character
  outside \<open>' '..'~'\<close>, the quote and the backslash are escaped; a code point beyond the
  basic plane becomes a surrogate pair
  (\<open>s1 = 0xd800 | ((n >> 10) & 0x3ff)\<close>, \<open>s2 = 0xdc00 | (n & 0x3ff)\<close> with
  \<open>n = ord(c) - 0x10000\<close>).
\<close>

definition escape_char :: "nat \<Rightarrow> pystr" where
  "escape_char c =
     (if c = 0x22 then [0x5C, 0x22]
      else if c = 0x5C then [0x5C, 0x5C]
      else if c = 0x0A then [0x5C, of_char CHR ''n'']
      else if c = 0x0D then [0x5C, of_char CHR ''r'']
      else if c = 0x09 then [0x5C, of_char CHR ''t'']
      else if c = 0x08 then [0x5C, of_char CHR ''b'']
      else if c = 0x0C then [0x5C, of_char CHR ''f'']
      else if 0x20 \<le> c \<and> c \<le> 0x7E then [c]
      else if c < 0x10000 then [0x5C, of_char CHR ''u''] @ hex4 c
      else (let n = c - 0x10000;
                s1 = 0xD800 + (n div 1024) mod 1024;
                s2 = 0xDC00 + n mod 1024
            in [0x5C, of_char CHR ''u''] @ hex4 s1 @ [0x5C, of_char CHR ''u''] @ hex4 s2))"

definition encode_str :: "pystr \<Rightarrow> pystr" where
  "encode_str s = [0x22] @ concat (map escape_char s) @ [0x22]"

text \<open>\<open>int.__repr__\<close>: decimal digits, a minus sign for a negative number.\<close>

function dec_nat :: "nat \<Rightarrow> pystr" where
  "dec_nat n = (if n < 10 then [0x30 + n] else dec_nat (n div 10) @ [0x30 + n mod 10])"
  by pat_completeness auto
termination
  by (relation "measure id") auto

declare dec_nat.simps [simp del]

definition int_repr :: "int \<Rightarrow> pystr" where
  "int_repr i = (if i < 0 then [of_char CHR ''-''] @ dec_nat (nat (- i)) else dec_nat (nat i))"

text \<open>
  The pretty printer of \<open>json.encoder\<close> with \<open>indent=2\<close>: the item separator is \<open>','\<close>
  followed by a newline and the indentation of the current level, the key separator is
  \<open>': '\<close>; an empty list is \<open>[]\<close> and an empty dict is \<open>{}\<close>.
\<close>

definition newline_indent :: "nat \<Rightarrow> pystr" where
  "newline_indent level = [0x0A] @ replicate (2 * level) 0x20"

fun encode :: "nat \<Rightarrow> json \<Rightarrow> pystr"
  and encode_items :: "nat \<Rightarrow> json list \<Rightarrow> pystr"
  and encode_pairs :: "nat \<Rightarrow> (pystr \<times> json) list \<Rightarrow> pystr"
where
  "encode level JNull = lit ''null''"
| "encode level (JBool b) = (if b then lit ''true'' else lit ''false'')"
| "encode level (JInt i) = int_repr i"
| "encode level (JFloat t) = lit t"
| "encode level (JStr s) = encode_str s"
| "encode level (JArr []) = lit ''[]''"
| "encode level (JArr (v # vs)) =
     lit ''['' @ newline_indent (level + 1) @ encode_items (level + 1) (v # vs)
       @ newline_indent level @ lit '']''"
| "encode level (JObj []) = lit ''{}''"
| "encode level (JObj (kv # kvs)) =
     lit ''{'' @ newline_indent (level + 1) @ encode_pairs (level + 1) (kv # kvs)
       @ newline_indent level @ lit ''}''"
| "encode_items level [] = []"
| "encode_items level [v] = encode level v"
| "encode_items level (v # w # vs) =
     encode level v @ lit '','' @ newline_indent level @ encode_items level (w # vs)"
| "encode_pairs level [] = []"
| "encode_pairs level [(k, v)] = encode_str k @ lit '': '' @ encode level v"
| "encode_pairs level ((k, v) # kv # kvs) =
     encode_str k @ lit '': '' @ encode level v @ lit '','' @ newline_indent level
       @ encode_pairs level (kv # kvs)"

definition json_dumps :: "json \<Rightarrow> pystr" where
  "json_dumps obj = encode 0 obj"

section \<open>\<open>json.loads\<close>\<close>

text \<open>
  The decoder of \<open>json.decoder\<close> and \<open>json.scanner\<close>.  Every function takes the text
  that is still to be read and returns what it read and the rest; \<open>None\<close> stands for
  \<open>JSONDecodeError\<close>.
\<close>

definition is_ws :: "nat \<Rightarrow> bool" where
  "is_ws c = (c = 0x20 \<or> c = 0x09 \<or> c = 0x0A \<or> c = 0x0D)"

definition skip_ws :: "pystr \<Rightarrow> pystr" where
  "skip_ws s = dropWhile is_ws s"

definition is_digit :: "nat \<Rightarrow> bool" where
  "is_digit c = (0x30 \<le> c \<and> c \<le> 0x39)"

definition hex_val :: "nat \<Rightarrow> nat option" where
  "hex_val c =
     (if 0x30 \<le> c \<and> c \<le> 0x39 then Some (c - 0x30)
      else if 0x61 \<le> c \<and> c \<le> 0x66 then Some (c - 0x57)
      else if 0x41 \<le> c \<and> c \<le> 0x46 then Some (c - 0x37)
      else None)"

text \<open>The four hexadecimal digits of a \<open>\uXXXX\<close> escape.\<close>

fun decode_u4 :: "pystr \<Rightarrow> (nat \<times> pystr) option" where
  "decode_u4 (a # b # c # d # s) =
     (case (hex_val a, hex_val b, hex_val c, hex_val d) of
        (Some x, Some y, Some z, Some w) \<Rightarrow> Some (((x * 16 + y) * 16 + z) * 16 + w, s)
      | _ \<Rightarrow> None)"
| "decode_u4 _ = None"

text \<open>The one-character escapes (the table \<open>BACKSLASH\<close>).\<close>

definition unescape :: "nat \<Rightarrow> nat option" where
  "unescape e =
     (if e = 0x22 then Some 0x22
      else if e = 0x5C then Some 0x5C
      else if e = of_char CHR ''/'' then Some (of_char CHR ''/'')
      else if e = of_char CHR ''b'' then Some 0x08
      else if e = of_char CHR ''f'' then Some 0x0C
      else if e = of_char CHR ''n'' then Some 0x0A
      else if e = of_char CHR ''r'' then Some 0x0D
      else if e = of_char CHR ''t'' then Some 0x09
      else None)"

definition cons_char :: "nat \<Rightarrow> (pystr \<times> pystr) option \<Rightarrow> (pystr \<times> pystr) option" where
  "cons_char c r = map_option (\<lambda>(t, rest). (c # t, rest)) r"

text \<open>
  \<open>scanstring\<close> (strict mode) reads a string literal after its opening quote, up to and
  including the closing quote.  A \<open>\uXXXX\<close> escape in the high-surrogate range that is
  followed by one in the low-surrogate range is read as one code point.  A control
  character, a bad escape and a missing closing quote are errors.
\<close>

function scanstring :: "pystr \<Rightarrow> (pystr \<times> pystr) option" where
  "scanstring [] = None"
| "scanstring (c # s) =
     (if c = 0x22 then Some ([], s)
      else if c = 0x5C then
        (case s of
           [] \<Rightarrow> None
         | e # s1 \<Rightarrow>
             if e = of_char CHR ''u'' then
               (case decode_u4 s1 of
                  None \<Rightarrow> None
                | Some (u, s2) \<Rightarrow>
                    if 0xD800 \<le> u \<and> u \<le> 0xDBFF \<and> take 2 s2 = [0x5C, of_char CHR ''u''] then
                      (case decode_u4 (drop 2 s2) of
                         None \<Rightarrow> None
                       | Some (u2, s3) \<Rightarrow>
                           if 0xDC00 \<le> u2 \<and> u2 \<le> 0xDFFF
                           then cons_char (0x10000 + (u - 0xD800) * 1024 + (u2 - 0xDC00))
                                  (scanstring s3)
                           else cons_char u (scanstring s2))
                    else cons_char u (scanstring s2))
             else (case unescape e of
                     None \<Rightarrow> None
                   | Some ch \<Rightarrow> cons_char ch (scanstring s1)))
      else if c < 0x20 then None
      else cons_char c (scanstring s))"
  by pat_completeness auto
termination
proof -
  have shorter: "length r < length s" if "decode_u4 s = Some (u, r)" for s u r
    using that by (induction s rule: decode_u4.induct) (auto split: option.splits)
  show ?thesis
  proof (relation "measure length", goal_cases)
    case 1
    show ?case by simp
  next
    case (2 c s e s1 p u s2 q u2 s3)
    then have "length s3 < length (drop 2 s2)" "length s2 < length s1"
      by (auto dest: shorter)
    with 2 show ?case by simp
  next
    case (3 c s e s1 p u s2 q u2 s3)
    then have "length s2 < length s1"
      by (auto dest: shorter)
    with 3 show ?case by simp
  next
    case (4 c s e s1 p u s2)
    then have "length s2 < length s1"
      by (auto dest: shorter)
    with 4 show ?case by simp
  next
    case (5 c s e s1 ch)
    then show ?case by simp
  next
    case (6 c s)
    then show ?case by simp
  qed
qed

declare scanstring.simps [simp del]

text \<open>
  A number matches \<open>-?(0|[1-9][0-9]*)(\.[0-9]+)?([eE][-+]?[0-9]+)?\<close>; it is an \<open>int\<close>
  when it has neither a fraction nor an exponent, and a float otherwise.
\<close>

definition digits_val :: "pystr \<Rightarrow> nat" where
  "digits_val ds = foldl (\<lambda>a c. 10 * a + (c - 0x30)) 0 ds"

definition int_part :: "pystr \<Rightarrow> (pystr \<times> pystr) option" where
  "int_part s =
     (case s of
        [] \<Rightarrow> None
      | c # r \<Rightarrow>
          if c = 0x30 then Some ([c], r)
          else if is_digit c then Some (takeWhile is_digit s, dropWhile is_digit s)
          else None)"

definition frac_part :: "pystr \<Rightarrow> pystr \<times> pystr" where
  "frac_part s =
     (case s of
        c # d # r \<Rightarrow>
          if c = of_char CHR ''.'' \<and> is_digit d
          then (c # takeWhile is_digit (d # r), dropWhile is_digit (d # r))
          else ([], s)
      | _ \<Rightarrow> ([], s))"

definition exp_part :: "pystr \<Rightarrow> pystr \<times> pystr" where
  "exp_part s =
     (case s of
        [] \<Rightarrow> ([], s)
      | e # r \<Rightarrow>
          if e = of_char CHR ''e'' \<or> e = of_char CHR ''E'' then
            (let (sg, r1) =
                   (case r of
                      [] \<Rightarrow> ([], r)
                    | c # r' \<Rightarrow>
                        if c = of_char CHR ''+'' \<or> c = of_char CHR ''-'' then ([c], r')
                        else ([], r))
             in case r1 of
                  [] \<Rightarrow> ([], s)
                | d # _ \<Rightarrow>
                    if is_digit d
                    then (e # sg @ takeWhile is_digit r1, dropWhile is_digit r1)
                    else ([], s))
          else ([], s))"

definition match_number :: "pystr \<Rightarrow> (json \<times> pystr) option" where
  "match_number s =
     (let (sign, s1) =
            (case s of
               [] \<Rightarrow> ([], s)
             | c # r \<Rightarrow> if c = of_char CHR ''-'' then ([c], r) else ([], s))
      in case int_part s1 of
           None \<Rightarrow> None
         | Some (ds, s2) \<Rightarrow>
             (let (frac, s3) = frac_part s2;
                  (ex, s4) = exp_part s3
              in if frac = [] \<and> ex = []
                 then Some (JInt (if sign = [] then int (digits_val ds)
                                  else - int (digits_val ds)), s4)
                 else Some (JFloat (map char_of (sign @ ds @ frac @ ex)), s4)))"

text \<open>
  \<open>dict(pairs)\<close>: a key that occurs again replaces the value and keeps the place of
  its first occurrence.
\<close>

definition dict_set :: "(pystr \<times> json) list \<Rightarrow> pystr \<Rightarrow> json \<Rightarrow> (pystr \<times> json) list" where
  "dict_set d k v =
     (if k \<in> set (map fst d) then map (\<lambda>(k', v'). if k' = k then (k', v) else (k', v')) d
      else d @ [(k, v)])"

definition dict_of :: "(pystr \<times> json) list \<Rightarrow> (pystr \<times> json) list" where
  "dict_of ps = foldl (\<lambda>d (k, v). dict_set d k v) [] ps"

definition starts_with :: "pystr \<Rightarrow> pystr \<Rightarrow> bool" where
  "starts_with s p = (take (length p) s = p)"

text \<open>
  \<open>scan_once\<close> reads one value; \<open>parse_array\<close> reads the elements of a list from its
  first element on, and \<open>parse_object\<close> the pairs of a dict from the character after
  the opening quote of its first key.  The recursion of the three follows the nesting
  of the text; its depth is bounded by the first argument.
\<close>

fun scan_once :: "nat \<Rightarrow> pystr \<Rightarrow> (json \<times> pystr) option"
  and parse_array :: "nat \<Rightarrow> pystr \<Rightarrow> (json list \<times> pystr) option"
  and parse_object :: "nat \<Rightarrow> pystr \<Rightarrow> ((pystr \<times> json) list \<times> pystr) option"
where
  "scan_once 0 s = None"
| "scan_once (Suc n) [] = None"
| "scan_once (Suc n) (c # s) =
     (if c = 0x22 then map_option (\<lambda>(t, r). (JStr t, r)) (scanstring s)
      else if c = of_char CHR ''{'' then
        (case skip_ws s of
           [] \<Rightarrow> None
         | d # r \<Rightarrow>
             if d = of_char CHR ''}'' then Some (JObj [], r)
             else if d = 0x22
             then map_option (\<lambda>(ps, r'). (JObj (dict_of ps), r')) (parse_object n r)
             else None)
      else if c = of_char CHR ''['' then
        (case skip_ws s of
           [] \<Rightarrow> None
         | d # r \<Rightarrow>
             if d = of_char CHR '']'' then Some (JArr [], r)
             else map_option (\<lambda>(vs, r'). (JArr vs, r')) (parse_array n (d # r)))
      else if starts_with (c # s) (lit ''null'') then Some (JNull, drop 4 (c # s))
      else if starts_with (c # s) (lit ''true'') then Some (JBool True, drop 4 (c # s))
      else if starts_with (c # s) (lit ''false'') then Some (JBool False, drop 5 (c # s))
      else
        (case match_number (c # s) of
           Some r \<Rightarrow> Some r
         | None \<Rightarrow>
             if starts_with (c # s) (lit ''NaN'') then Some (JFloat ''NaN'', drop 3 (c # s))
             else if starts_with (c # s) (lit ''Infinity'')
             then Some (JFloat ''Infinity'', drop 8 (c # s))
             else if starts_with (c # s) (lit ''-Infinity'')
             then Some (JFloat ''-Infinity'', drop 9 (c # s))
             else None))"
| "parse_array 0 s = None"
| "parse_array (Suc n) s =
     (case scan_once n s of
        None \<Rightarrow> None
      | Some (v, r) \<Rightarrow>
          (case skip_ws r of
             [] \<Rightarrow> None
           | d # r1 \<Rightarrow>
               if d = of_char CHR '']'' then Some ([v], r1)
               else if d = of_char CHR '',''
               then map_option (\<lambda>(vs, r'). (v # vs, r')) (parse_array n (skip_ws r1))
               else None))"
| "parse_object 0 s = None"
| "parse_object (Suc n) s =
     (case scanstring s of
        None \<Rightarrow> None
      | Some (k, r) \<Rightarrow>
          (case skip_ws r of
             [] \<Rightarrow> None
           | d # r1 \<Rightarrow>
               if d \<noteq> of_char CHR '':'' then None
               else
                 (case scan_once n (skip_ws r1) of
                    None \<Rightarrow> None
                  | Some (v, r2) \<Rightarrow>
                      (case skip_ws r2 of
                         [] \<Rightarrow> None
                       | d' # r3 \<Rightarrow>
                           if d' = of_char CHR ''}'' then Some ([(k, v)], r3)
                           else if d' = of_char CHR '','' then
                             (case skip_ws r3 of
                                [] \<Rightarrow> None
                              | q # r4 \<Rightarrow>
                                  if q = 0x22
                                  then map_option (\<lambda>(ps, r'). ((k, v) # ps, r'))
                                         (parse_object n r4)
                                  else None)
                           else None))))"

text \<open>
  \<open>json.loads(s)\<close> for a \<open>str\<close>: a leading byte-order mark is refused, white space
  around the value is skipped, and anything else after the value is an error
  (\<open>Extra data\<close>).  Each nested call reads at least one character every second level,
  so the depth \<open>2 * len(s) + 2\<close> is never exhausted; this is lemma
  \<open>json_loads_any_depth\<close> below.
\<close>

definition json_loads :: "pystr \<Rightarrow> json option" where
  "json_loads s =
     (if starts_with s [0xFEFF] then None
      else
        (case scan_once (2 * length s + 2) (skip_ws s) of
           None \<Rightarrow> None
         | Some (v, r) \<Rightarrow> if skip_ws r = [] then Some v else None))"

section \<open>The tool \<open>canvas\<close>\<close>

text \<open>
  The exceptions that can leave \<open>canvas\<close>: those of the two collaborators, and the
  \<open>JSONDecodeError\<close> of \<open>response.json()\<close>.
\<close>

datatype error =
    ProjectResolutionError
  | TransportError
  | RemoteWriteError
  | JSONDecodeError

text \<open>
  What \<open>canvas\<close> reads of its collaborators' results: \<open>active_project.project_url\<close>,
  \<open>response.status_code\<close> and the body that \<open>response.json()\<close> parses (\<open>content\<close>, as
  the text it decodes to).
\<close>

record project =
  project_url :: pystr

record response =
  status_code :: int
  content :: pystr

text \<open>
  The effects of one invocation, in the order in which they happen: the two log entries
  and the call of \<open>call_put\<close> with its URL and its \<open>json=\<close> argument.
\<close>

datatype event =
    LogInfo pystr
  | CallPut pystr json
  | LogDebug json


text \<open>\<open>str.endswith\<close> and \<open>str.join\<close>.\<close>

definition endswith :: "pystr \<Rightarrow> pystr \<Rightarrow> bool" where
  "endswith s suffix =
     (length suffix \<le> length s \<and> drop (length s - length suffix) s = suffix)"

fun join :: "pystr \<Rightarrow> pystr list \<Rightarrow> pystr" where
  "join sep [] = []"
| "join sep [x] = x"
| "join sep (x # y # ys) = x @ sep @ join sep (y # ys)"

text \<open>The local variables of \<open>canvas\<close> (lines 142 to 149), as functions of its arguments.\<close>

definition file_title :: "pystr \<Rightarrow> pystr" where
  "file_title title = (if endswith title (lit ''.canvas'') then title else title @ lit ''.canvas'')"

definition file_path :: "pystr \<Rightarrow> pystr \<Rightarrow> pystr" where
  "file_path folder title = folder @ lit ''/'' @ file_title title"

definition canvas_data :: "json list \<Rightarrow> json list \<Rightarrow> json" where
  "canvas_data nodes edges = JObj [(lit ''nodes'', JArr nodes), (lit ''edges'', JArr edges)]"

definition canvas_json :: "json list \<Rightarrow> json list \<Rightarrow> pystr" where
  "canvas_json nodes edges = json_dumps (canvas_data nodes edges)"

definition resource_url :: "project \<Rightarrow> pystr \<Rightarrow> pystr \<Rightarrow> pystr" where
  "resource_url active_project folder title =
     project_url active_project @ lit ''/resource/'' @ file_path folder title"

text \<open>\<open>response.json()\<close> parses the body and raises when it is not JSON.\<close>

definition response_json :: "response \<Rightarrow> error + json" where
  "response_json r = (case json_loads (content r) of None \<Rightarrow> Inl JSONDecodeError | Some v \<Rightarrow> Inr v)"

text \<open>
  \<open>canvas\<close> itself.  Its collaborators \<open>get_active_project\<close> and \<open>call_put\<close> are
  parameters: each either raises (\<open>Inl\<close>) or returns (\<open>Inr\<close>).  The result is the
  returned summary or the exception that propagates, together with the effects.
\<close>

definition canvas ::
  "('c option \<Rightarrow> pystr option \<Rightarrow> error + project) \<Rightarrow> (pystr \<Rightarrow> json \<Rightarrow> error + response) \<Rightarrow>
   json list \<Rightarrow> json list \<Rightarrow> pystr \<Rightarrow> pystr \<Rightarrow> pystr option \<Rightarrow> 'c option \<Rightarrow>
   (error + pystr) \<times> event list" where
  "canvas get_active_project call_put nodes edges title folder project context =
     (case get_active_project context project of
        Inl e \<Rightarrow> (Inl e, [])
      | Inr active_project \<Rightarrow>
          (let effects = [LogInfo (lit ''Creating canvas file: '' @ file_path folder title),
                          CallPut (resource_url active_project folder title)
                            (JStr (canvas_json nodes edges))]
           in case call_put (resource_url active_project folder title)
                     (JStr (canvas_json nodes edges)) of
                Inl e \<Rightarrow> (Inl e, effects)
              | Inr response \<Rightarrow>
                  (case response_json response of
                     Inl e \<Rightarrow> (Inl e, effects)
                   | Inr result \<Rightarrow>
                       (let action = (if status_code response = 201 then lit ''Created''
                                      else lit ''Updated'');
                            summary = [lit ''# '' @ action @ lit '': '' @ file_path folder title,
                                       lit ''\<newline>The canvas is ready to open in Obsidian.'']
                        in (Inr (join (lit ''\<newline>'') summary), effects @ [LogDebug result])))))"

text \<open>Collaborators with a fixed answer, for the scenarios of the specification.\<close>

definition resolving :: "project \<Rightarrow> 'c option \<Rightarrow> pystr option \<Rightarrow> error + project" where
  "resolving p context project = Inr p"

definition failing :: "error \<Rightarrow> 'c option \<Rightarrow> pystr option \<Rightarrow> error + project" where
  "failing e context project = Inl e"

definition answering :: "response \<Rightarrow> pystr \<Rightarrow> json \<Rightarrow> error + response" where
  "answering r url payload = Inr r"

section \<open>The values of the tool's interface\<close>







section \<open>The layout and the transport of the body\<close>





section \<open>Evaluating the decoder\<close>

text \<open>The equations of the decoder for a depth given as a numeral.\<close>

lemmas fuel_numeral =
  scan_once.simps(2,3) [of "pred_numeral k", folded numeral_eq_Suc]
  parse_array.simps(2) [of "pred_numeral k", folded numeral_eq_Suc]
  parse_object.simps(2) [of "pred_numeral k", folded numeral_eq_Suc]
  for k

lemma loads_empty_object: "json_loads (lit ''{}'') = Some (JObj [])"
  by (simp add: json_loads_def starts_with_def lit_def skip_ws_def is_ws_def fuel_numeral)

lemma loads_empty_text: "json_loads [] = None"
  by (simp add: json_loads_def starts_with_def skip_ws_def fuel_numeral)

section \<open>File title and destination path\<close>

lemma endswith_iff: "endswith s suf \<longleftrightarrow> (\<exists>p. s = p @ suf)"
proof
  assume "endswith s suf"
  then have "s = take (length s - length suf) s @ suf"
    by (metis append_take_drop_id endswith_def)
  then show "\<exists>p. s = p @ suf" ..
next
  assume "\<exists>p. s = p @ suf"
  then show "endswith s suf"
    by (auto simp: endswith_def)
qed

text \<open>
  C4.  A title that ends with \<open>.canvas\<close> is the file title as it is, so that the suffix
  is not doubled; any other title gets \<open>.canvas\<close> appended.
\<close>

theorem file_title_suffix:
  "((\<exists>p. title = p @ lit ''.canvas'') \<longrightarrow> file_title title = title) \<and>
   (\<not> (\<exists>p. title = p @ lit ''.canvas'') \<longrightarrow> file_title title = title @ lit ''.canvas'')"
  by (simp add: file_title_def endswith_iff)

theorem file_title_suffix_witness:
  "(\<exists>p. lit ''Map.canvas'' = p @ lit ''.canvas'') \<and>
   file_title (lit ''Map.canvas'') = lit ''Map.canvas'' \<and>
   \<not> (\<exists>p. lit ''Map'' = p @ lit ''.canvas'') \<and>
   file_title (lit ''Map'') = lit ''Map.canvas''"
proof -
  have yes: "\<exists>p. lit ''Map.canvas'' = p @ lit ''.canvas''"
    by (rule exI [of _ "lit ''Map''"]) (simp add: lit_def)
  have no: "\<not> (\<exists>p. lit ''Map'' = p @ lit ''.canvas'')"
  proof
    assume "\<exists>p. lit ''Map'' = p @ lit ''.canvas''"
    then obtain p where "lit ''Map'' = p @ lit ''.canvas''" ..
    then have "length (lit ''Map'') = length p + length (lit ''.canvas'')"
      by (metis length_append)
    then show False by (simp add: lit_def)
  qed
  from yes no file_title_suffix [of "lit ''Map.canvas''"] file_title_suffix [of "lit ''Map''"]
  show ?thesis by (simp add: lit_def)
qed

text \<open>
  C5.  The destination path is the folder, a slash and the file title, joined as they
  are: it is the path of the log entry and of the URL that \<open>call_put\<close> is called with,
  and with an empty folder it begins with the slash.
\<close>

theorem destination_path:
  assumes "get_active_project context project = Inr p"
  shows "file_path folder title = folder @ [0x2F] @ file_title title \<and>
         take 2 (snd (canvas get_active_project call_put nodes edges title folder project context)) =
           [LogInfo (lit ''Creating canvas file: '' @ folder @ [0x2F] @ file_title title),
            CallPut (project_url p @ lit ''/resource/'' @ folder @ [0x2F] @ file_title title)
              (JStr (canvas_json nodes edges))] \<and>
         hd (file_path [] title) = 0x2F"
  using assms
  by (auto simp: canvas_def Let_def file_path_def resource_url_def lit_def
           split: sum.splits)

theorem destination_path_witness:
  "resolving \<lparr>project_url = lit ''/main''\<rparr> (None :: unit option) None
     = Inr \<lparr>project_url = lit ''/main''\<rparr> \<and>
   file_path (lit ''a//b/'') (lit ''Map'') = lit ''a//b//Map.canvas'' \<and>
   file_path [] (lit ''Map'') = lit ''/Map.canvas''"
proof -
  have h: "resolving \<lparr>project_url = lit ''/main''\<rparr> (None :: unit option) None
             = Inr \<lparr>project_url = lit ''/main''\<rparr>"
    by (simp add: resolving_def)
  have t: "file_title (lit ''Map'') = lit ''Map.canvas''"
    by (simp add: file_title_def endswith_def lit_def)
  from destination_path
         [of "resolving \<lparr>project_url = lit ''/main''\<rparr>" "None :: unit option" None
             "\<lparr>project_url = lit ''/main''\<rparr>" "lit ''a//b/''" "lit ''Map''"]
       destination_path
         [of "resolving \<lparr>project_url = lit ''/main''\<rparr>" "None :: unit option" None
             "\<lparr>project_url = lit ''/main''\<rparr>" "[]" "lit ''Map''"] h t
  show ?thesis by (simp add: lit_def)
qed

section \<open>The result of \<open>canvas\<close>\<close>

text \<open>
  C1.  When \<open>canvas\<close> returns, project resolution and \<open>call_put\<close> have both returned,
  and the summary is \<open>"# "\<close>, the action, \<open>": "\<close>, the destination path, a newline, an
  empty line and the fixed sentence; the action is \<open>Created\<close> exactly for the status
  code 201 and \<open>Updated\<close> for any other.
\<close>

theorem canvas_summary:
  assumes "fst (canvas get_active_project call_put nodes edges title folder project context)
             = Inr summary"
  shows "\<exists>p r. get_active_project context project = Inr p \<and>
           call_put (resource_url p folder title) (JStr (canvas_json nodes edges)) = Inr r \<and>
           summary = lit ''# '' @ (if status_code r = 201 then lit ''Created'' else lit ''Updated'')
                       @ lit '': '' @ (folder @ lit ''/'' @ file_title title)
                       @ lit ''\<newline>\<newline>The canvas is ready to open in Obsidian.''"
  using assms
  by (auto simp: canvas_def Let_def file_path_def lit_def split: sum.splits)

theorem canvas_summary_witness:
  "fst (canvas (resolving \<lparr>project_url = lit ''/main''\<rparr>)
          (answering \<lparr>status_code = 201, content = lit ''{}''\<rparr>)
          [] [] (lit ''Map'') (lit ''diagrams'') None (None :: unit option))
     = Inr (lit ''# Created: diagrams/Map.canvas\<newline>\<newline>The canvas is ready to open in Obsidian.'')"
proof -
  have run:
    "fst (canvas (resolving \<lparr>project_url = lit ''/main''\<rparr>)
            (answering \<lparr>status_code = 201, content = lit ''{}''\<rparr>)
            [] [] (lit ''Map'') (lit ''diagrams'') None (None :: unit option))
       = Inr (join (lit ''\<newline>'')
               [lit ''# '' @ lit ''Created'' @ lit '': '' @ file_path (lit ''diagrams'') (lit ''Map''),
                lit ''\<newline>The canvas is ready to open in Obsidian.''])"
    by (simp add: canvas_def resolving_def answering_def response_json_def loads_empty_object)
  from canvas_summary [OF run]
  show ?thesis
    unfolding run
    by (simp add: resolving_def answering_def file_title_def endswith_def lit_def)
qed

text \<open>
  C8.  When project resolution fails, \<open>canvas\<close> fails with the same error and has no
  effect: \<open>call_put\<close> is not called.
\<close>

theorem resolution_failure_propagates:
  assumes "get_active_project context project = Inl ProjectResolutionError"
  shows "canvas get_active_project call_put nodes edges title folder project context
           = (Inl ProjectResolutionError, [])"
  using assms by (simp add: canvas_def)

theorem resolution_failure_propagates_witness:
  "failing ProjectResolutionError (None :: unit option) (Some (lit ''missing-project''))
     = Inl ProjectResolutionError \<and>
   canvas (failing ProjectResolutionError)
     (answering \<lparr>status_code = 201, content = lit ''{}''\<rparr>)
     [] [] (lit ''Map'') (lit ''diagrams'') (Some (lit ''missing-project'')) (None :: unit option)
     = (Inl ProjectResolutionError, [])"
proof -
  have h: "failing ProjectResolutionError (None :: unit option) (Some (lit ''missing-project''))
             = Inl ProjectResolutionError"
    by (simp add: failing_def)
  from h resolution_failure_propagates
         [of "failing ProjectResolutionError" "None :: unit option"
             "Some (lit ''missing-project'')"]
  show ?thesis by simp
qed


text \<open>
  C10.  Two invocations with the same title, folder and resolved project whose
  responses have the same status code return the same summary, whatever their nodes
  and edges are.
\<close>

theorem summary_independent_of_nodes_and_edges:
  assumes "get_active_project context project = Inr p"
    and "call_put1 (resource_url p folder title) (JStr (canvas_json nodes1 edges1)) = Inr r1"
    and "call_put2 (resource_url p folder title) (JStr (canvas_json nodes2 edges2)) = Inr r2"
    and "status_code r1 = status_code r2"
    and "fst (canvas get_active_project call_put1 nodes1 edges1 title folder project context)
           = Inr s1"
    and "fst (canvas get_active_project call_put2 nodes2 edges2 title folder project context)
           = Inr s2"
  shows "s1 = s2"
  using assms
  by (auto simp: canvas_def Let_def split: sum.splits)


theorem summary_independent_of_nodes_and_edges_witness:
  "fst (canvas (resolving \<lparr>project_url = lit ''/main''\<rparr>)
          (answering \<lparr>status_code = 200, content = lit ''{}''\<rparr>)
          [JObj [(lit ''id'', JStr (lit ''a''))]] [] (lit ''Map'') (lit ''diagrams'')
          None (None :: unit option))
     = Inr (lit ''# Updated: diagrams/Map.canvas\<newline>\<newline>The canvas is ready to open in Obsidian.'') \<and>
   fst (canvas (resolving \<lparr>project_url = lit ''/main''\<rparr>)
          (answering \<lparr>status_code = 200, content = lit ''{}''\<rparr>)
          [] [JInt 7] (lit ''Map'') (lit ''diagrams'') None (None :: unit option))
     = Inr (lit ''# Updated: diagrams/Map.canvas\<newline>\<newline>The canvas is ready to open in Obsidian.'')"
proof -
  let ?p = "\<lparr>project_url = lit ''/main''\<rparr>"
  let ?r = "\<lparr>status_code = 200, content = lit ''{}''\<rparr>"
  let ?s = "lit ''# Updated: diagrams/Map.canvas\<newline>\<newline>The canvas is ready to open in Obsidian.''"
  have t: "file_title (lit ''Map'') = lit ''Map.canvas''"
    by (simp add: file_title_def endswith_def lit_def)
  have h: "resolving ?p (None :: unit option) None = Inr ?p"
    by (simp add: resolving_def)
  have a1: "answering ?r (resource_url ?p (lit ''diagrams'') (lit ''Map''))
              (JStr (canvas_json [JObj [(lit ''id'', JStr (lit ''a''))]] [])) = Inr ?r"
    and a2: "answering ?r (resource_url ?p (lit ''diagrams'') (lit ''Map''))
              (JStr (canvas_json [] [JInt 7])) = Inr ?r"
    by (simp_all add: answering_def)
  have run1: "fst (canvas (resolving ?p) (answering ?r)
                [JObj [(lit ''id'', JStr (lit ''a''))]] [] (lit ''Map'') (lit ''diagrams'')
                None (None :: unit option)) = Inr ?s"
    by (simp add: canvas_def resolving_def answering_def response_json_def loads_empty_object
          file_path_def t)
       (simp add: lit_def)
  have run2: "fst (canvas (resolving ?p) (answering ?r)
                [] [JInt 7] (lit ''Map'') (lit ''diagrams'')
                None (None :: unit option)) = Inr ?s"
    by (simp add: canvas_def resolving_def answering_def response_json_def loads_empty_object
          file_path_def t)
       (simp add: lit_def)
  from summary_independent_of_nodes_and_edges [OF h a1 a2 refl run1 run2] run1 run2
  show ?thesis by simp
qed

text \<open>
  C2, as the code has it.  Besides the status code, \<open>canvas\<close> parses the body of the
  response (\<open>response.json()\<close>): it fails with \<open>JSONDecodeError\<close> when the body is not
  JSON, and otherwise returns the summary, which the status code alone determines.
\<close>

theorem result_from_status_and_parse:
  assumes "get_active_project context project = Inr p"
    and "call_put (resource_url p folder title) (JStr (canvas_json nodes edges)) = Inr r"
  shows "fst (canvas get_active_project call_put nodes edges title folder project context) =
           (if json_loads (content r) = None then Inl JSONDecodeError
            else Inr (lit ''# '' @ (if status_code r = 201 then lit ''Created'' else lit ''Updated'')
                        @ lit '': '' @ file_path folder title
                        @ lit ''\<newline>\<newline>The canvas is ready to open in Obsidian.''))"
  using assms
  by (auto simp: canvas_def Let_def response_json_def lit_def split: sum.splits option.splits)

theorem result_from_status_and_parse_witness:
  "fst (canvas (resolving \<lparr>project_url = lit ''/main''\<rparr>)
          (answering \<lparr>status_code = 200, content = lit ''{}''\<rparr>)
          [] [] (lit ''Map'') (lit ''diagrams'') None (None :: unit option))
     = Inr (lit ''# Updated: diagrams/Map.canvas\<newline>\<newline>The canvas is ready to open in Obsidian.'')"
proof -
  let ?p = "\<lparr>project_url = lit ''/main''\<rparr>"
  let ?r = "\<lparr>status_code = 200, content = lit ''{}''\<rparr>"
  have t: "file_title (lit ''Map'') = lit ''Map.canvas''"
    by (simp add: file_title_def endswith_def lit_def)
  have h: "resolving ?p (None :: unit option) None = Inr ?p"
    by (simp add: resolving_def)
  have a: "answering ?r (resource_url ?p (lit ''diagrams'') (lit ''Map''))
             (JStr (canvas_json [] [])) = Inr ?r"
    by (simp add: answering_def)
  from result_from_status_and_parse
         [of "resolving ?p" "None :: unit option" None ?p "answering ?r"
             "lit ''diagrams''" "lit ''Map''" "[]" "[]" ?r, OF h a]
  show ?thesis
    by (simp add: loads_empty_object file_path_def t) (simp add: lit_def)
qed

text \<open>
  The body of the response decides whether \<open>canvas\<close> returns: with the status code 204
  and an empty body it raises, with the same status code and the body \<open>{}\<close> it returns
  the summary.
\<close>

theorem response_body_decides_success:
  "fst (canvas (resolving \<lparr>project_url = lit ''/main''\<rparr>)
          (answering \<lparr>status_code = 204, content = []\<rparr>)
          [] [] (lit ''Map'') (lit ''diagrams'') None (None :: unit option))
     = Inl JSONDecodeError \<and>
   fst (canvas (resolving \<lparr>project_url = lit ''/main''\<rparr>)
          (answering \<lparr>status_code = 204, content = lit ''{}''\<rparr>)
          [] [] (lit ''Map'') (lit ''diagrams'') None (None :: unit option))
     = Inr (lit ''# Updated: diagrams/Map.canvas\<newline>\<newline>The canvas is ready to open in Obsidian.'')"
proof -
  have t: "file_title (lit ''Map'') = lit ''Map.canvas''"
    by (simp add: file_title_def endswith_def lit_def)
  show ?thesis
    by (simp add: canvas_def resolving_def answering_def response_json_def
          loads_empty_object loads_empty_text file_path_def t)
       (simp add: lit_def)
qed

section \<open>String literals are read back\<close>




















section \<open>Integers are read back\<close>














section \<open>Values are read back\<close>







































section \<open>The depth of the decoder\<close>

lemma decode_u4_shorter: "decode_u4 s = Some (u, r) \<Longrightarrow> length r < length s"
  by (induction s rule: decode_u4.induct) (auto split: option.splits)

lemma cons_char_Some: "cons_char c x = Some (t, r) \<Longrightarrow> \<exists>t'. x = Some (t', r)"
  by (cases x) (auto simp: cons_char_def)

lemma scanstring_shorter: "scanstring s = Some (t, r) \<Longrightarrow> length r < length s"
proof (induction "length s" arbitrary: s t rule: less_induct)
  case less
  have IH: "length r < length s'" if "scanstring s' = Some (t', r)" "length s' < length s"
    for s' t'
    using less.hyps that by blast
  show ?case
  proof (cases s)
    case Nil
    with less.prems show ?thesis by (simp add: scanstring.simps)
  next
    case (Cons c s0)
    from less.prems show ?thesis
      unfolding Cons
      apply (subst (asm) scanstring.simps)
      apply (auto split: if_splits list.splits option.splits
                  dest!: cons_char_Some decode_u4_shorter)
      apply (auto dest!: IH simp: Cons)
      done
  qed
qed


lemma length_skip_ws: "length (skip_ws s) \<le> length s"
  by (simp add: skip_ws_def length_dropWhile_le)

lemma skip_ws_Cons_shorter: "skip_ws s = d # r \<Longrightarrow> length r < length s"
  using length_skip_ws [of s] by simp

lemma int_part_shorter: "int_part s = Some (ds, r) \<Longrightarrow> length r < length s"
proof (cases s)
  case Nil
  then show "int_part s = Some (ds, r) \<Longrightarrow> length r < length s"
    by (simp add: int_part_def)
next
  case (Cons c s0)
  have "length (dropWhile is_digit s0) \<le> length s0"
    by (rule length_dropWhile_le)
  then show "int_part s = Some (ds, r) \<Longrightarrow> length r < length s"
    by (auto simp: int_part_def Cons split: if_splits)
qed

lemma frac_part_shorter: "length (snd (frac_part s)) \<le> length s"
proof -
  have "length (dropWhile is_digit t) \<le> length t" for t
    by (rule length_dropWhile_le)
  then show ?thesis
    by (auto simp: frac_part_def le_Suc_eq split: list.splits)
qed

lemma exp_part_shorter: "length (snd (exp_part s)) \<le> length s"
proof -
  have d: "length (dropWhile is_digit t) \<le> length t" for t
    by (rule length_dropWhile_le)
  show ?thesis
  proof (cases s)
    case Nil
    then show ?thesis by (simp add: exp_part_def)
  next
    case (Cons e r)
    show ?thesis
    proof (cases r)
      case Nil
      with Cons show ?thesis by (simp add: exp_part_def)
    next
      case (Cons c r')
      with \<open>s = e # r\<close> d [of r] d [of r'] show ?thesis
        by (auto simp: exp_part_def Let_def le_Suc_eq split: list.splits)
    qed
  qed
qed

lemma match_number_shorter: "match_number s = Some (v, r) \<Longrightarrow> length r < length s"
proof -
  assume m: "match_number s = Some (v, r)"
  define s1 where "s1 = (case s of [] \<Rightarrow> s | c # t \<Rightarrow> if c = 0x2D then t else s)"
  have s1: "length s1 \<le> length s"
    by (auto simp: s1_def split: list.splits)
  from m obtain ds s2 where ip: "int_part s1 = Some (ds, s2)"
    by (auto simp: match_number_def s1_def Let_def split: list.splits option.splits if_splits)
  from m ip have r: "r = snd (exp_part (snd (frac_part s2)))"
    by (auto simp: match_number_def s1_def Let_def
             split: list.splits option.splits if_splits prod.splits)
  have "length r \<le> length s2"
    unfolding r using exp_part_shorter [of "snd (frac_part s2)"] frac_part_shorter [of s2]
    by linarith
  with int_part_shorter [OF ip] s1 show ?thesis
    by linarith
qed


lemma consumes_all:
  "(\<forall>s v r. scan_once n s = Some (v, r) \<longrightarrow> length r < length s) \<and>
   (\<forall>s vs r. parse_array n s = Some (vs, r) \<longrightarrow> length r < length s) \<and>
   (\<forall>s ps r. parse_object n s = Some (ps, r) \<longrightarrow> length r < length s)"
proof (induction n)
  case 0
  show ?case by simp
next
  case (Suc n)
  then have once: "\<And>s v r. scan_once n s = Some (v, r) \<Longrightarrow> length r < length s"
    and arr: "\<And>s vs r. parse_array n s = Some (vs, r) \<Longrightarrow> length r < length s"
    and obj: "\<And>s ps r. parse_object n s = Some (ps, r) \<Longrightarrow> length r < length s"
    by blast+
  have "length r < length s" if "scan_once (Suc n) s = Some (v, r)" for s v r
  proof (cases s)
    case Nil
    with that show ?thesis by simp
  next
    case (Cons c s0)
    from that show ?thesis
      unfolding Cons
      by (auto split: if_splits list.splits option.splits
               dest!: scanstring_shorter skip_ws_Cons_shorter match_number_shorter arr obj)
  qed
  moreover have "length r < length s" if "parse_array (Suc n) s = Some (vs, r)" for s vs r
  proof -
    have "length (skip_ws t) \<le> length t" for t
      by (rule length_skip_ws)
    with that show ?thesis
      by (auto split: if_splits list.splits option.splits
               dest!: skip_ws_Cons_shorter once arr)
         (meson le_less_trans less_trans)+
  qed
  moreover have "length r < length s" if "parse_object (Suc n) s = Some (ps, r)" for s ps r
  proof -
    have "length (skip_ws t) \<le> length t" for t
      by (rule length_skip_ws)
    with that show ?thesis
      by (auto split: if_splits list.splits option.splits
               dest!: skip_ws_Cons_shorter scanstring_shorter once obj)
         (meson le_less_trans less_trans)+
  qed
  ultimately show ?case by blast
qed



lemma scan_once_shorter: "scan_once n s = Some (v, r) \<Longrightarrow> length r < length s"
  using consumes_all [of n] by blast

lemma arr_step:
  assumes once: "\<And>s x m. scan_once n s = Some x \<Longrightarrow> 2 * length s + 1 \<le> m \<Longrightarrow> scan_once m s = Some x"
    and arr: "\<And>s x m. parse_array n s = Some x \<Longrightarrow> 2 * length s + 2 \<le> m \<Longrightarrow> parse_array m s = Some x"
    and that: "parse_array (Suc n) s = Some x" "2 * length s + 2 \<le> m"
  shows "parse_array m s = Some x"
proof -
  have ws: "length (skip_ws t) \<le> length t" for t
    by (rule length_skip_ws)
    from that(2) obtain m' where m: "m = Suc m'" and m': "2 * length s + 1 \<le> m'"
      by (cases m) auto
    from that(1) obtain v r where s1: "scan_once n s = Some (v, r)"
      by (auto split: option.splits)
    from s1 m' have s1': "scan_once m' s = Some (v, r)"
      by (rule once)
    from that(1) s1 obtain d r1 where w: "skip_ws r = d # r1"
      by (auto split: list.splits)
    show ?thesis
    proof (cases "d = 0x2C")
      case True
      with that(1) s1 w obtain y where p: "parse_array n (skip_ws r1) = Some y"
        by auto
      have "length r < length s" using s1 by (rule scan_once_shorter)
      moreover have "length r1 < length r" using w by (rule skip_ws_Cons_shorter)
      ultimately have "2 * length (skip_ws r1) + 2 \<le> m'"
        using ws [of r1] m' by linarith
      with p have "parse_array m' (skip_ws r1) = Some y" by (rule arr)
      with that(1) s1 s1' w True p show ?thesis
        by (simp add: m)
    next
      case False
      with that(1) s1 s1' w show ?thesis
        by (auto simp: m split: if_splits)
    qed
  qed


lemma obj_step:
  assumes once: "\<And>s x m. scan_once n s = Some x \<Longrightarrow> 2 * length s + 1 \<le> m \<Longrightarrow> scan_once m s = Some x"
    and obj: "\<And>s x m. parse_object n s = Some x \<Longrightarrow> 2 * length s + 2 \<le> m \<Longrightarrow> parse_object m s = Some x"
    and that: "parse_object (Suc n) s = Some x" "2 * length s + 2 \<le> m"
  shows "parse_object m s = Some x"
proof -
  have ws: "length (skip_ws t) \<le> length t" for t
    by (rule length_skip_ws)
    from that(2) obtain m' where m: "m = Suc m'" and m': "2 * length s + 1 \<le> m'"
      by (cases m) auto
    from that(1) obtain k r where k: "scanstring s = Some (k, r)"
      by (auto split: option.splits)
    from that(1) k obtain d r1 where w1: "skip_ws r = d # r1"
      by (auto split: list.splits)
    from that(1) k w1 have d: "d = 0x3A"
      by (auto split: if_splits)
    from that(1) k w1 d obtain v r2 where s1: "scan_once n (skip_ws r1) = Some (v, r2)"
      by (auto split: option.splits)
    have l1: "length r < length s" using k by (rule scanstring_shorter)
    have l2: "length r1 < length r" using w1 by (rule skip_ws_Cons_shorter)
    have "2 * length (skip_ws r1) + 1 \<le> m'"
      using ws [of r1] m' l1 l2 by linarith
    with s1 have s1': "scan_once m' (skip_ws r1) = Some (v, r2)"
      by (rule once)
    from that(1) k w1 d s1 obtain d' r3 where w2: "skip_ws r2 = d' # r3"
      by (auto split: list.splits)
    show ?thesis
    proof (cases "d' = 0x2C")
      case True
      with that(1) k w1 d s1 w2 obtain q r4 where w3: "skip_ws r3 = q # r4"
        by (auto split: list.splits)
      show ?thesis
      proof (cases "q = 0x22")
        case q: True
        with that(1) k w1 d s1 w2 True w3 obtain y where p: "parse_object n r4 = Some y"
          by auto
        have "length r2 < length (skip_ws r1)" using s1 by (rule scan_once_shorter)
        moreover have "length r3 < length r2" using w2 by (rule skip_ws_Cons_shorter)
        moreover have "length r4 < length r3" using w3 by (rule skip_ws_Cons_shorter)
        ultimately have "2 * length r4 + 2 \<le> m'"
          using ws [of r1] m' l1 l2 by linarith
        with p have "parse_object m' r4 = Some y" by (rule obj)
        with that(1) k w1 d s1 s1' w2 True w3 q p show ?thesis
          by (simp add: m)
      next
        case False
        with that(1) k w1 d s1 w2 True w3 show ?thesis
          by (auto simp: m split: if_splits)
      qed
    next
      case False
      with that(1) k w1 d s1 s1' w2 show ?thesis
        by (auto simp: m split: if_splits)
    qed
  qed

lemma scan_once_leaf:
  "c \<noteq> 0x7B \<Longrightarrow> c \<noteq> 0x5B \<Longrightarrow> scan_once (Suc n) (c # s) = scan_once (Suc m) (c # s)"
  by simp

lemma scan_once_object_eq:
  "scan_once (Suc n) (0x7B # s) =
     (case skip_ws s of
        [] \<Rightarrow> None
      | d # r \<Rightarrow>
          if d = 0x7D then Some (JObj [], r)
          else if d = 0x22
          then map_option (\<lambda>(ps, r'). (JObj (dict_of ps), r')) (parse_object n r)
          else None)"
  by (simp cong: list.case_cong)

lemma scan_once_array_eq:
  "scan_once (Suc n) (0x5B # s) =
     (case skip_ws s of
        [] \<Rightarrow> None
      | d # r \<Rightarrow>
          if d = 0x5D then Some (JArr [], r)
          else map_option (\<lambda>(vs, r'). (JArr vs, r')) (parse_array n (d # r)))"
  by (simp cong: list.case_cong)


lemma once_step:
  assumes arr: "\<And>s x m. parse_array n s = Some x \<Longrightarrow> 2 * length s + 2 \<le> m \<Longrightarrow> parse_array m s = Some x"
    and obj: "\<And>s x m. parse_object n s = Some x \<Longrightarrow> 2 * length s + 2 \<le> m \<Longrightarrow> parse_object m s = Some x"
    and that: "scan_once (Suc n) s = Some x" "2 * length s + 1 \<le> m"
  shows "scan_once m s = Some x"
proof (cases s)
    case Nil
    with that show ?thesis by simp
  next
    case (Cons c s0)
    with that(2) obtain m' where m: "m = Suc m'" and m': "2 * length s0 + 2 \<le> m'"
      by (cases m) auto
    consider (object) "c = 0x7B" | (array) "c = 0x5B" | (other) "c \<noteq> 0x7B" "c \<noteq> 0x5B"
      by blast
    then show ?thesis
    proof cases
      case object
      from that(1) have h: "scan_once (Suc n) (0x7B # s0) = Some x"
        by (simp only: Cons object)
      show ?thesis
      proof (cases "skip_ws s0")
        case Nil
        with h show ?thesis by (simp add: scan_once_object_eq del: scan_once.simps)
      next
        case (Cons d r0)
        then have "length r0 < length s0"
          by (rule skip_ws_Cons_shorter)
        with m' have le: "2 * length r0 + 2 \<le> m'" by linarith
        have "parse_object m' r0 = parse_object n r0" if "d = 0x22" "d \<noteq> 0x7D"
        proof -
          from h Cons that obtain y where y: "parse_object n r0 = Some y"
            by (auto simp: scan_once_object_eq simp del: scan_once.simps)
          from obj [OF y le] y show ?thesis by simp
        qed
        with h Cons have "scan_once (Suc m') (0x7B # s0) = Some x"
          by (auto simp: scan_once_object_eq simp del: scan_once.simps split: if_splits)
        then show ?thesis
          by (simp only: \<open>s = c # s0\<close> object m)
      qed
    next
      case array
      from that(1) have h: "scan_once (Suc n) (0x5B # s0) = Some x"
        by (simp only: Cons array)
      show ?thesis
      proof (cases "skip_ws s0")
        case Nil
        with h show ?thesis by (simp add: scan_once_array_eq del: scan_once.simps)
      next
        case (Cons d r0)
        then have "length (d # r0) \<le> length s0"
          using length_skip_ws [of s0] by simp
        with m' have le: "2 * length (d # r0) + 2 \<le> m'" by linarith
        have "parse_array m' (d # r0) = parse_array n (d # r0)" if "d \<noteq> 0x5D"
        proof -
          from h Cons that obtain y where y: "parse_array n (d # r0) = Some y"
            by (auto simp: scan_once_array_eq simp del: scan_once.simps)
          from arr [OF y le] y show ?thesis by simp
        qed
        with h Cons have "scan_once (Suc m') (0x5B # s0) = Some x"
          by (auto simp: scan_once_array_eq simp del: scan_once.simps split: if_splits)
        then show ?thesis
          by (simp only: \<open>s = c # s0\<close> array m)
      qed
    next
      case other
      from that(1) show ?thesis
        unfolding Cons m using scan_once_leaf [OF other, of n s0 m'] by simp
    qed
  qed


lemma fuel_enough_all:
  "(\<forall>s x m. scan_once n s = Some x \<longrightarrow> 2 * length s + 1 \<le> m \<longrightarrow> scan_once m s = Some x) \<and>
   (\<forall>s x m. parse_array n s = Some x \<longrightarrow> 2 * length s + 2 \<le> m \<longrightarrow> parse_array m s = Some x) \<and>
   (\<forall>s x m. parse_object n s = Some x \<longrightarrow> 2 * length s + 2 \<le> m \<longrightarrow> parse_object m s = Some x)"
proof (induction n)
  case 0
  show ?case by simp
next
  case (Suc n)
  then have once: "\<And>s x m. scan_once n s = Some x \<Longrightarrow> 2 * length s + 1 \<le> m \<Longrightarrow> scan_once m s = Some x"
    and arr: "\<And>s x m. parse_array n s = Some x \<Longrightarrow> 2 * length s + 2 \<le> m \<Longrightarrow> parse_array m s = Some x"
    and obj: "\<And>s x m. parse_object n s = Some x \<Longrightarrow> 2 * length s + 2 \<le> m \<Longrightarrow> parse_object m s = Some x"
    by blast+
  show ?case
  proof (intro conjI allI impI)
    fix s x m
    assume "scan_once (Suc n) s = Some x" "2 * length s + 1 \<le> m"
    with arr obj show "scan_once m s = Some x"
      by (rule once_step)
  next
    fix s x m
    assume "parse_array (Suc n) s = Some x" "2 * length s + 2 \<le> m"
    with once arr show "parse_array m s = Some x"
      by (rule arr_step)
  next
    fix s x m
    assume "parse_object (Suc n) s = Some x" "2 * length s + 2 \<le> m"
    with once obj show "parse_object m s = Some x"
      by (rule obj_step)
  qed
qed

text \<open>
  The bound on the depth of the recursion is never what makes \<open>json_loads\<close> fail: a text
  that can be read with any bound is read by \<open>json_loads\<close>.
\<close>

lemma json_loads_any_depth:
  assumes "\<not> starts_with s [0xFEFF]"
    and "scan_once n (skip_ws s) = Some (v, r)"
    and "skip_ws r = []"
  shows "json_loads s = Some v"
proof -
  have "2 * length (skip_ws s) + 1 \<le> 2 * length s + 2"
    using length_skip_ws [of s] by linarith
  with assms(2) have "scan_once (2 * length s + 2) (skip_ws s) = Some (v, r)"
    using conjunct1 [OF fuel_enough_all [of n]] by blast
  with assms(1,3) show ?thesis
    by (simp add: json_loads_def)
qed


section \<open>The layout of the body\<close>







section \<open>The body on the wire\<close>













end
